theory Spec2Isabelle
  imports
    Complex_Main
    "HOL-Library.Char_ord"
    "HOL-Library.List_Lexorder"
    "HOL-Library.Multiset"
begin

section \<open>The window ring of \<^verbatim>\<open>src/main.py\<close>\<close>

text \<open>
  The development embeds the class \<^verbatim>\<open>WindowRing\<close>: the app-name normalizer, the
  grouping loop of its constructor, the layout loops of \<^verbatim>\<open>paintEvent\<close> with their
  call of \<^verbatim>\<open>get_app_icon\<close>, and the handlers \<^verbatim>\<open>mouseMoveEvent\<close>,
  \<^verbatim>\<open>_do_peek\<close>, \<^verbatim>\<open>mousePressEvent\<close> and \<^verbatim>\<open>keyPressEvent\<close>. Painting
  proper (gradients, pens, pixmaps, text) neither raises nor changes a field that the
  handlers read, and is left out.

  Conventions.
  \<^item> A Python \<^verbatim>\<open>str\<close> is a HOL \<open>string\<close>; a \<open>char\<close> stands for the code point of
    the same number, so the strings covered are those with code points below 256.
  \<^item> A Python \<^verbatim>\<open>int\<close> is an \<open>int\<close>; list positions produced by \<^verbatim>\<open>enumerate\<close>
    are \<open>nat\<close>.
  \<^item> Finite floating-point numbers are modelled by \<open>real\<close> with exact arithmetic:
    rounding is not modelled. Where only comparisons are made (the progress setter),
    the non-finite values are modelled too.
\<close>

subsection \<open>Strings\<close>

text \<open>\<^verbatim>\<open>str.lower()\<close> on code points below 256: A-Z and the Latin-1 capitals
  (U+00C0 to U+00DE, U+00D7 excepted) move up by 32, every other one is fixed.\<close>

definition lower_char :: "char \<Rightarrow> char" where
  "lower_char c =
     (let n = (of_char c :: nat)
      in if (65 \<le> n \<and> n \<le> 90) \<or> (192 \<le> n \<and> n \<le> 222 \<and> n \<noteq> 215)
         then char_of (n + 32) else c)"

definition lower :: "string \<Rightarrow> string" where
  "lower s = map lower_char s"

fun starts_with :: "string \<Rightarrow> string \<Rightarrow> bool" where
  "starts_with [] ys = True"
| "starts_with (x # xs) [] = False"
| "starts_with (x # xs) (y # ys) = (x = y \<and> starts_with xs ys)"

text \<open>\<^verbatim>\<open>x in s\<close> on strings: \<open>x\<close> occurs in \<open>s\<close> as a contiguous piece.\<close>

fun str_in :: "string \<Rightarrow> string \<Rightarrow> bool" where
  "str_in x [] = (x = [])"
| "str_in x (y # ys) = (starts_with x (y # ys) \<or> str_in x ys)"

text \<open>\<^verbatim>\<open>any(x in s for x in names)\<close>\<close>

definition any_in :: "string list \<Rightarrow> string \<Rightarrow> bool" where
  "any_in names s = list_ex (\<lambda>x. str_in x s) names"

text \<open>The characters that \<^verbatim>\<open>str.split()\<close> treats as white space, among the code
  points below 256: U+0009 to U+000D, U+001C to U+0020, U+0085 and U+00A0.\<close>

definition is_space :: "char \<Rightarrow> bool" where
  "is_space c =
     (let n = (of_char c :: nat)
      in (9 \<le> n \<and> n \<le> 13) \<or> (28 \<le> n \<and> n \<le> 32) \<or> n = 133 \<or> n = 160)"

text \<open>\<^verbatim>\<open>s.split()\<close>: the maximal runs of characters other than white space, in
  order; \<open>cur\<close> is the run being read.\<close>

fun split_loop :: "string \<Rightarrow> string \<Rightarrow> string list" where
  "split_loop cur [] = (if cur = [] then [] else [cur])"
| "split_loop cur (c # cs) =
     (if is_space c then (if cur = [] then split_loop [] cs else cur # split_loop [] cs)
      else split_loop (cur @ [c]) cs)"

definition py_split :: "string \<Rightarrow> string list" where
  "py_split s = split_loop [] s"

text \<open>\<^verbatim>\<open>s.replace(' ', '-')\<close>\<close>

definition replace_space :: "string \<Rightarrow> string" where
  "replace_space s = map (\<lambda>c. if c = CHR '' '' then CHR ''-'' else c) s"

subsection \<open>\<^verbatim>\<open>WindowRing._normalize_app_name\<close>\<close>

text \<open>The browser block returns only in its three inner branches; otherwise control
  falls through to the editor test (\<open>None\<close> here).\<close>

definition browser_consolidation :: "string \<Rightarrow> string option" where
  "browser_consolidation app_lower =
     (if any_in [''chrome'', ''chromium'', ''brave'', ''firefox'', ''edge''] app_lower then
        (if str_in ''brave'' app_lower then Some ''Brave''
         else if str_in ''firefox'' app_lower then Some ''Firefox''
         else if str_in ''chrome'' app_lower then Some ''Chrome''
         else None)
      else None)"

definition normalize_app_name :: "string \<Rightarrow> string" where
  "normalize_app_name app_name =
     (let app_lower = lower app_name
      in case browser_consolidation app_lower of
           Some r \<Rightarrow> r
         | None \<Rightarrow>
             if any_in [''code'', ''vscode'', ''vscodium''] app_lower then ''Code''
             else if any_in [''terminal'', ''konsole'', ''qterminal'', ''gnome-terminal''] app_lower
               then ''Terminal''
             else app_name)"

subsection \<open>Window descriptors and the grouping loop of \<^verbatim>\<open>WindowRing.__init__\<close>\<close>

text \<open>A descriptor is the dict \<^verbatim>\<open>{'id': .., 'app': .., 'title': ..}\<close> built by
  \<^verbatim>\<open>get_windows\<close>; the key \<^verbatim>\<open>'id'\<close> is the field \<open>win_id\<close>.\<close>

record window =
  win_id :: string
  app :: string
  title :: string

text \<open>\<^verbatim>\<open>self.groups\<close> is a \<^verbatim>\<open>defaultdict(list)\<close>: an association list in
  insertion order, with one entry per key.\<close>

type_synonym groups = "(string \<times> window list) list"

text \<open>\<^verbatim>\<open>self.groups[app_key].append(w)\<close>: a missing key is created with the empty
  list, at the end of the dict.\<close>

fun groups_append :: "groups \<Rightarrow> string \<Rightarrow> window \<Rightarrow> groups" where
  "groups_append [] app_key w = [(app_key, [w])]"
| "groups_append ((k, ws) # g) app_key w =
     (if k = app_key then (k, ws @ [w]) # g else (k, ws) # groups_append g app_key w)"

fun group_loop :: "groups \<Rightarrow> window list \<Rightarrow> groups" where
  "group_loop g [] = g"
| "group_loop g (w # windows) =
     group_loop (groups_append g (normalize_app_name (app w)) w) windows"

definition group_windows :: "window list \<Rightarrow> groups" where
  "group_windows windows = group_loop [] windows"

text \<open>\<^verbatim>\<open>self.groups[app_name]\<close> read inside the loop over the dict's own keys.\<close>

definition groups_get :: "groups \<Rightarrow> string \<Rightarrow> window list" where
  "groups_get g app_name = (case map_of g app_name of Some ws \<Rightarrow> ws | None \<Rightarrow> [])"

text \<open>\<^verbatim>\<open>sorted(self.groups.keys())\<close>: strings compare by code point, lexicographically.\<close>

definition sorted_keys :: "groups \<Rightarrow> string list" where
  "sorted_keys g = sort (map fst g)"

subsection \<open>Configuration\<close>

text \<open>The entries of \<^verbatim>\<open>CONFIG\<close> that the ring reads.\<close>

definition RING_SIZE :: real where "RING_SIZE = 800"
definition HUB_RADIUS :: real where "HUB_RADIUS = 190"
definition SPOKE_LENGTH :: real where "SPOKE_LENGTH = 70"
definition NODE_RADIUS :: real where "NODE_RADIUS = 16"
definition PEEK_ENABLED :: bool where "PEEK_ENABLED = True"
definition KEYBOARD_NAV :: bool where "KEYBOARD_NAV = True"

subsection \<open>Floats that are only compared\<close>

datatype pyfloat = Finite real | PosInf | NegInf | NaN

text \<open>The comparison \<^verbatim>\<open><\<close> of two floats; every comparison with NaN is false.\<close>

fun float_lt :: "pyfloat \<Rightarrow> pyfloat \<Rightarrow> bool" where
  "float_lt NaN b = False"
| "float_lt a NaN = False"
| "float_lt (Finite x) (Finite y) = (x < y)"
| "float_lt (Finite x) PosInf = True"
| "float_lt (Finite x) NegInf = False"
| "float_lt PosInf b = False"
| "float_lt NegInf NegInf = False"
| "float_lt NegInf b = True"

text \<open>The builtins \<^verbatim>\<open>min(a, b)\<close> and \<^verbatim>\<open>max(a, b)\<close> keep the first argument unless
  the second is strictly smaller, respectively strictly greater.\<close>

definition py_min :: "pyfloat \<Rightarrow> pyfloat \<Rightarrow> pyfloat" where
  "py_min a b = (if float_lt b a then b else a)"

definition py_max :: "pyfloat \<Rightarrow> pyfloat \<Rightarrow> pyfloat" where
  "py_max a b = (if float_lt a b then b else a)"

subsection \<open>The state of a ring\<close>

type_synonym point = "real \<times> real"

text \<open>An entry of \<^verbatim>\<open>self.node_positions\<close>: \<^verbatim>\<open>(QPointF(win_x, win_y), radius, win)\<close>.\<close>

type_synonym node = "point \<times> real \<times> window"

text \<open>The two call sites of \<^verbatim>\<open>subprocess.run(["wmctrl", "-i", "-a", id])\<close>: the one of
  \<^verbatim>\<open>_do_peek\<close> and the one of the press and confirm handlers.\<close>

datatype request = Peek string | Activate string

text \<open>The fields of the object that the handlers read or write. \<open>icon_cache\<close> holds the
  keys of the dict \<^verbatim>\<open>self.icon_cache\<close> in insertion order (the pixmaps are left out),
  \<open>peek_timer_active\<close> is the state of the single-shot \<^verbatim>\<open>self.peek_timer\<close>,
  \<open>ring_closed\<close> records \<^verbatim>\<open>self.close()\<close>, and \<open>requests\<close> lists the external calls
  in the order made.\<close>

record ring =
  groups :: groups
  anim_progress :: pyfloat
  hover_win_id :: "string option"
  selected_index :: int
  node_positions :: "node list"
  flat_windows :: "window list"
  icon_cache :: "string list"
  pending_peek_id :: "string option"
  peek_timer_active :: bool
  ring_closed :: bool
  requests :: "request list"

definition init_ring :: "window list \<Rightarrow> ring" where
  "init_ring windows =
     \<lparr> groups = group_windows windows,
       anim_progress = Finite 0,
       hover_win_id = None,
       selected_index = - 1,
       node_positions = [],
       flat_windows = [],
       icon_cache = [],
       pending_peek_id = None,
       peek_timer_active = False,
       ring_closed = False,
       requests = [] \<rparr>"

text \<open>The setter of the property \<^verbatim>\<open>anim_progress\<close>.\<close>

definition anim_progress_setter :: "pyfloat \<Rightarrow> ring \<Rightarrow> ring" where
  "anim_progress_setter val s = s\<lparr>anim_progress := py_max (Finite 0) (py_min (Finite 1) val)\<rparr>"

subsection \<open>The outcome of a handler\<close>

text \<open>A handler returns, lets an exception escape, or does not return; each carries
  the state of the object at that point.\<close>

datatype 'a result = Returned 'a | Propagated 'a | Blocked 'a

subsection \<open>\<^verbatim>\<open>WindowRing.get_app_icon\<close>\<close>

definition icon_map :: "(string \<times> string) list" where
  "icon_map =
     [(''brave'', ''brave-browser''),
      (''firefox'', ''firefox''),
      (''chrome'', ''google-chrome''),
      (''code'', ''vscode''),
      (''terminal'', ''utilities-terminal''),
      (''qterminal'', ''utilities-terminal''),
      (''pcmanfm'', ''system-file-manager''),
      (''dolphin'', ''system-file-manager''),
      (''nautilus'', ''system-file-manager'')]"

text \<open>The list \<^verbatim>\<open>icon_names\<close>, whose elements are evaluated in order. The last one
  is \<^verbatim>\<open>app_name.lower().split()[0] if ' ' in app_name else app_name.lower()\<close>: when
  the name has a space and nothing but white space, the split is empty and the index
  raises \<^verbatim>\<open>IndexError\<close> (\<open>None\<close>).\<close>

definition icon_names :: "string \<Rightarrow> string list option" where
  "icon_names app_name =
     (let first = (case map_of icon_map (lower app_name) of
                     Some v \<Rightarrow> v | None \<Rightarrow> lower app_name);
          second = lower app_name;
          third = replace_space (lower app_name)
      in if CHR '' '' \<in> set app_name then
           (case py_split (lower app_name) of
              [] \<Rightarrow> None
            | w # ws \<Rightarrow> Some [first, second, third, w])
         else Some [first, second, third, lower app_name])"

text \<open>The effect of \<^verbatim>\<open>get_app_icon\<close> on the cache: a cached name returns at once;
  otherwise the names are built, the theme is asked for an icon (which does not raise),
  and the name is cached. \<open>None\<close> is the \<^verbatim>\<open>IndexError\<close>, which leaves the cache as
  it was.\<close>

definition get_app_icon :: "string list \<Rightarrow> string \<Rightarrow> string list option" where
  "get_app_icon cache app_name =
     (if app_name \<in> set cache then Some cache
      else case icon_names app_name of
             None \<Rightarrow> None
           | Some names \<Rightarrow> Some (cache @ [app_name]))"

subsection \<open>The layout loops of \<^verbatim>\<open>WindowRing.paintEvent\<close>\<close>

text \<open>The value of \<^verbatim>\<open>spoke_off\<close> for window \<open>j\<close> of \<open>num_wins\<close>.\<close>

definition spoke_off :: "nat \<Rightarrow> nat \<Rightarrow> real" where
  "spoke_off j num_wins =
     (if num_wins > 1 then (real j - (real num_wins - 1) / 2) * (pi / 11) else 0)"

text \<open>The inner loop \<^verbatim>\<open>for j, win in enumerate(wins)\<close>, from position \<open>j\<close> and counter
  \<open>flat_idx\<close> on; it yields the entries appended to \<^verbatim>\<open>self.node_positions\<close>.\<close>

fun paint_wins ::
  "real \<Rightarrow> string option \<Rightarrow> int \<Rightarrow> real \<Rightarrow> point \<Rightarrow> nat \<Rightarrow> nat \<Rightarrow> int \<Rightarrow> window list \<Rightarrow> node list"
where
  "paint_wins prog hover sel angle hub num_wins j flat_idx [] = []"
| "paint_wins prog hover sel angle hub num_wins j flat_idx (win # wins) =
     (let total_angle = angle + spoke_off j num_wins;
          win_x = fst hub + SPOKE_LENGTH * prog * cos total_angle;
          win_y = snd hub + SPOKE_LENGTH * prog * sin total_angle;
          is_hovered = (hover = Some (win_id win));
          is_selected = (sel = flat_idx);
          radius = NODE_RADIUS * prog;
          radius = (if is_hovered \<or> is_selected then radius * 1.6 else radius)
      in ((win_x, win_y), radius, win)
         # paint_wins prog hover sel angle hub num_wins (Suc j) (flat_idx + 1) wins)"

definition hub_angle :: "nat \<Rightarrow> nat \<Rightarrow> real" where
  "hub_angle i num_apps = (2 * pi * real i / real num_apps) - (pi / 2)"

definition hub_point :: "real \<Rightarrow> point \<Rightarrow> real \<Rightarrow> point" where
  "hub_point prog c angle =
     (let hub_dist = HUB_RADIUS * prog
      in (fst c + hub_dist * cos angle, snd c + hub_dist * sin angle))"

text \<open>The outer loop \<^verbatim>\<open>for i, app_name in enumerate(app_names)\<close>. It yields the hub
  points drawn, the entries appended to \<^verbatim>\<open>self.node_positions\<close> and the cache, all
  as they are when the loop ends or when \<^verbatim>\<open>get_app_icon\<close> raises. That call comes
  after the hub's glow is drawn and before the windows of the app are visited.\<close>

fun paint_apps ::
  "groups \<Rightarrow> real \<Rightarrow> string option \<Rightarrow> int \<Rightarrow> point \<Rightarrow> nat \<Rightarrow> nat \<Rightarrow> int \<Rightarrow> string list
     \<Rightarrow> string list \<Rightarrow> (point list \<times> node list \<times> string list) result"
where
  "paint_apps g prog hover sel c num_apps i flat_idx cache [] = Returned ([], [], cache)"
| "paint_apps g prog hover sel c num_apps i flat_idx cache (app_name # app_names) =
     (let angle = hub_angle i num_apps;
          hub = hub_point prog c angle
      in case get_app_icon cache app_name of
           None \<Rightarrow> Propagated ([hub], [], cache)
         | Some cache1 \<Rightarrow>
             (let wins = groups_get g app_name;
                  nodes = paint_wins prog hover sel angle hub (length wins) 0 flat_idx wins
              in map_result (\<lambda>(hubs, more, cache2). (hub # hubs, nodes @ more, cache2))
                   (paint_apps g prog hover sel c num_apps (Suc i)
                      (flat_idx + int (length wins)) cache1 app_names)))"

text \<open>The layout of one paint: \<^verbatim>\<open>cx, cy\<close> is the middle of the widget, whose size is
  fixed to \<^verbatim>\<open>RING_SIZE\<close>. With no app the loops are not entered.\<close>

definition layout ::
  "groups \<Rightarrow> real \<Rightarrow> string option \<Rightarrow> int \<Rightarrow> string list
     \<Rightarrow> (point list \<times> node list \<times> string list) result"
where
  "layout g prog hover sel cache =
     (let cx = RING_SIZE / 2; cy = RING_SIZE / 2;
          app_names = sorted_keys g;
          num_apps = length app_names
      in if num_apps = 0 then Returned ([], [], cache)
         else paint_apps g prog hover sel (cx, cy) num_apps 0 0 cache app_names)"

text \<open>The effect of \<^verbatim>\<open>paintEvent\<close> on the object: both lists are rebuilt, and
  \<^verbatim>\<open>win\<close> is appended to \<^verbatim>\<open>self.flat_windows\<close> wherever an entry is appended to
  \<^verbatim>\<open>self.node_positions\<close>. The handler returns, or the \<^verbatim>\<open>IndexError\<close> of
  \<^verbatim>\<open>get_app_icon\<close> escapes it with the lists as far as they were built. The result is
  \<open>None\<close> when the progress is not a finite number, where the arithmetic is not
  modelled.\<close>

definition paintEvent :: "ring \<Rightarrow> ring result option" where
  "paintEvent s =
     (case anim_progress s of
        Finite prog \<Rightarrow>
          Some (map_result
                  (\<lambda>(hubs, nodes, cache).
                     s\<lparr>node_positions := nodes,
                       flat_windows := map (\<lambda>(c, r, win). win) nodes,
                       icon_cache := cache\<rparr>)
                  (layout (groups s) prog (hover_win_id s) (selected_index s) (icon_cache s)))
      | _ \<Rightarrow> None)"

subsection \<open>External calls\<close>

text \<open>What the launched \<^verbatim>\<open>wmctrl\<close> does: it exits (with any status; no
  \<^verbatim>\<open>check=True\<close> is passed), it cannot be started so that \<^verbatim>\<open>subprocess.run\<close>
  raises, or it never exits.\<close>

datatype proc = Exits | Raises | Hangs

datatype run = Completed | Raised | Never

text \<open>\<^verbatim>\<open>subprocess.run\<close>, with or without \<^verbatim>\<open>timeout=\<close>: a process that hangs
  raises \<^verbatim>\<open>TimeoutExpired\<close> when a timeout is given and keeps the caller waiting
  otherwise.\<close>

fun subprocess_run :: "bool \<Rightarrow> proc \<Rightarrow> run" where
  "subprocess_run timeout Exits = Completed"
| "subprocess_run timeout Raises = Raised"
| "subprocess_run timeout Hangs = (if timeout then Raised else Never)"

subsection \<open>\<^verbatim>\<open>WindowRing.mouseMoveEvent\<close>\<close>

text \<open>The test made on one entry \<^verbatim>\<open>(center, radius, win)\<close> of
  \<^verbatim>\<open>self.node_positions\<close>.\<close>

fun hit :: "point \<Rightarrow> node \<Rightarrow> bool" where
  "hit pos (center, radius, win) =
     (let dx = fst pos - fst center;
          dy = snd pos - snd center;
          dist = sqrt (dx * dx + dy * dy)
      in dist < radius + 20)"

text \<open>The hit-test loop with its \<^verbatim>\<open>break\<close>; the result is
  \<^verbatim>\<open>(new_hover_id, new_selected)\<close>.\<close>

fun hit_loop :: "point \<Rightarrow> nat \<Rightarrow> node list \<Rightarrow> string option \<times> int" where
  "hit_loop pos idx [] = (None, - 1)"
| "hit_loop pos idx ((center, radius, win) # rest) =
     (if hit pos (center, radius, win) then (Some (win_id win), int idx)
      else hit_loop pos (Suc idx) rest)"

text \<open>The truth value of \<^verbatim>\<open>self.hover_win_id\<close>, \<^verbatim>\<open>None\<close> or a string.\<close>

definition truthy :: "string option \<Rightarrow> bool" where
  "truthy v = (case v of None \<Rightarrow> False | Some x \<Rightarrow> x \<noteq> [])"

definition mouseMoveEvent :: "point \<Rightarrow> ring \<Rightarrow> ring" where
  "mouseMoveEvent pos s =
     (let (new_hover_id, new_selected) = hit_loop pos 0 (node_positions s)
      in if new_hover_id \<noteq> hover_win_id s then
           (let s1 = s\<lparr>hover_win_id := new_hover_id, selected_index := new_selected\<rparr>;
                s2 = s1\<lparr>peek_timer_active := False\<rparr>
            in if truthy (hover_win_id s2) \<and> PEEK_ENABLED
               then s2\<lparr>pending_peek_id := hover_win_id s2, peek_timer_active := True\<rparr>
               else s2)
         else s)"

subsection \<open>\<^verbatim>\<open>WindowRing._do_peek\<close> and the expiry of the peek timer\<close>

text \<open>The call has \<^verbatim>\<open>timeout=0.5\<close> and sits in \<^verbatim>\<open>try: ... except: pass\<close>.\<close>

definition do_peek :: "proc \<Rightarrow> ring \<Rightarrow> ring result" where
  "do_peek p s =
     (case pending_peek_id s of
        None \<Rightarrow> Returned s
      | Some wid \<Rightarrow>
          if wid = [] then Returned s
          else (let s1 = s\<lparr>requests := requests s @ [Peek wid]\<rparr>
                in case subprocess_run True p of
                     Completed \<Rightarrow> Returned s1
                   | Raised \<Rightarrow> Returned s1
                   | Never \<Rightarrow> Blocked s1))"

text \<open>The timer is single-shot: it fires only while active, is inactive afterwards,
  and its \<^verbatim>\<open>timeout\<close> signal runs \<^verbatim>\<open>_do_peek\<close>.\<close>

definition peek_timer_timeout :: "proc \<Rightarrow> ring \<Rightarrow> ring result" where
  "peek_timer_timeout p s =
     (if peek_timer_active s then do_peek p (s\<lparr>peek_timer_active := False\<rparr>)
      else Returned s)"

subsection \<open>\<^verbatim>\<open>WindowRing.mousePressEvent\<close> and \<^verbatim>\<open>WindowRing.keyPressEvent\<close>\<close>

definition close :: "ring \<Rightarrow> ring" where
  "close s = s\<lparr>ring_closed := True\<rparr>"

text \<open>\<^verbatim>\<open>subprocess.run(["wmctrl", "-i", "-a", self.hover_win_id])\<close> followed by
  \<^verbatim>\<open>self.close()\<close>: no timeout and no \<^verbatim>\<open>try\<close>.\<close>

definition activate_then_close :: "proc \<Rightarrow> string \<Rightarrow> ring \<Rightarrow> ring result" where
  "activate_then_close p wid s =
     (let s1 = s\<lparr>requests := requests s @ [Activate wid]\<rparr>
      in case subprocess_run False p of
           Completed \<Rightarrow> Returned (close s1)
         | Raised \<Rightarrow> Propagated s1
         | Never \<Rightarrow> Blocked s1)"

datatype button = LeftButton | OtherButton

definition mousePressEvent :: "button \<Rightarrow> proc \<Rightarrow> ring \<Rightarrow> ring result" where
  "mousePressEvent b p s =
     (if b = LeftButton then
        (case hover_win_id s of
           None \<Rightarrow> Returned (close s)
         | Some wid \<Rightarrow> if wid \<noteq> [] then activate_then_close p wid s else Returned (close s))
      else Returned s)"

datatype key =
  Key_Escape | Key_Tab | Key_Right | Key_Down | Key_Backtab | Key_Left | Key_Up
  | Key_Return | Key_Space | Key_Other

text \<open>\<^verbatim>\<open>xs[i]\<close> for an integer \<open>i\<close>: a negative index counts from the end, and an
  index out of range raises \<^verbatim>\<open>IndexError\<close> (\<open>None\<close>).\<close>

definition py_index :: "'a list \<Rightarrow> int \<Rightarrow> 'a option" where
  "py_index xs i =
     (let n = int (length xs); j = (if i < 0 then n + i else i)
      in if 0 \<le> j \<and> j < n then Some (xs ! nat j) else None)"

text \<open>The two navigation branches differ in the step only: \<open>1\<close> for the next window,
  \<open>- 1\<close> for the previous one. Python's \<^verbatim>\<open>%\<close> with a positive right operand is
  \<open>mod\<close> on \<open>int\<close>.\<close>

definition navigate :: "int \<Rightarrow> ring \<Rightarrow> ring result" where
  "navigate step s =
     (if flat_windows s \<noteq> [] then
        (let s1 = s\<lparr>selected_index := (selected_index s + step) mod int (length (flat_windows s))\<rparr>
         in case py_index (flat_windows s1) (selected_index s1) of
              None \<Rightarrow> Propagated s1
            | Some w \<Rightarrow> Returned (s1\<lparr>hover_win_id := Some (win_id w)\<rparr>))
      else Returned s)"

definition keyPressEvent :: "key \<Rightarrow> proc \<Rightarrow> ring \<Rightarrow> ring result" where
  "keyPressEvent k p s =
     (if k = Key_Escape then Returned (close s)
      else if KEYBOARD_NAV \<and> k \<in> set [Key_Tab, Key_Right, Key_Down] then navigate 1 s
      else if KEYBOARD_NAV \<and> k \<in> set [Key_Backtab, Key_Left, Key_Up] then navigate (- 1) s
      else if k \<in> set [Key_Return, Key_Space] then
        (case hover_win_id s of
           None \<Rightarrow> Returned s
         | Some wid \<Rightarrow> if wid \<noteq> [] then activate_then_close p wid s else Returned s)
      else Returned s)"

subsection \<open>The snapshot of the grouping scenario\<close>

abbreviation scenario_w1 :: window where
  "scenario_w1 \<equiv> \<lparr>win_id = ''1'', app = ''firefox'', title = ''A''\<rparr>"

abbreviation scenario_w2 :: window where
  "scenario_w2 \<equiv> \<lparr>win_id = ''2'', app = ''Brave-browser'', title = ''B''\<rparr>"

abbreviation scenario_w3 :: window where
  "scenario_w3 \<equiv> \<lparr>win_id = ''3'', app = ''firefox'', title = ''C''\<rparr>"

abbreviation scenario :: "window list" where
  "scenario \<equiv> [scenario_w1, scenario_w2, scenario_w3]"

subsection \<open>A snapshot with two editors and a terminal\<close>

abbreviation editor_a :: window where
  "editor_a \<equiv> \<lparr>win_id = ''0x01'', app = ''VSCode'', title = ''main.py''\<rparr>"

abbreviation terminal_b :: window where
  "terminal_b \<equiv> \<lparr>win_id = ''0x02'', app = ''Terminal'', title = ''bash''\<rparr>"

abbreviation editor_c :: window where
  "editor_c \<equiv> \<lparr>win_id = ''0x03'', app = ''Vscodium'', title = ''notes''\<rparr>"

abbreviation desk :: "window list" where
  "desk \<equiv> [editor_a, terminal_b, editor_c]"

subsection \<open>Rings on concrete snapshots\<close>

text \<open>The ring on the editor and the terminal, with the progress at 1 and painted
  once.\<close>

abbreviation pair_ring :: ring where
  "pair_ring \<equiv>
     \<lparr> groups = [(''Code'', [editor_a]), (''Terminal'', [terminal_b])],
       anim_progress = Finite 1,
       hover_win_id = None,
       selected_index = - 1,
       node_positions = [((400, 140), 16, editor_a), ((400, 660), 16, terminal_b)],
       flat_windows = [editor_a, terminal_b],
       icon_cache = [''Code'', ''Terminal''],
       pending_peek_id = None,
       peek_timer_active = False,
       ring_closed = False,
       requests = [] \<rparr>"

text \<open>The same ring once the pointer has moved onto the editor's node.\<close>

abbreviation pair_hovered :: ring where
  "pair_hovered \<equiv>
     pair_ring \<lparr> hover_win_id := Some ''0x01'', selected_index := 0,
                 pending_peek_id := Some ''0x01'', peek_timer_active := True \<rparr>"

text \<open>The ring on the terminal alone, painted once at the initial progress.\<close>

abbreviation lone_ring :: ring where
  "lone_ring \<equiv>
     \<lparr> groups = [(''Terminal'', [terminal_b])],
       anim_progress = Finite 0,
       hover_win_id = None,
       selected_index = - 1,
       node_positions = [((400, 400), 0, terminal_b)],
       flat_windows = [terminal_b],
       icon_cache = [''Terminal''],
       pending_peek_id = None,
       peek_timer_active = False,
       ring_closed = False,
       requests = [] \<rparr>"

text \<open>The ring on the two editors and the terminal, painted once at the initial
  progress.\<close>

abbreviation desk_ring :: ring where
  "desk_ring \<equiv>
     \<lparr> groups = [(''Code'', [editor_a, editor_c]), (''Terminal'', [terminal_b])],
       anim_progress = Finite 0,
       hover_win_id = None,
       selected_index = - 1,
       node_positions =
         [((400, 400), 0, editor_a), ((400, 400), 0, editor_c), ((400, 400), 0, terminal_b)],
       flat_windows = [editor_a, editor_c, terminal_b],
       icon_cache = [''Code'', ''Terminal''],
       pending_peek_id = None,
       peek_timer_active = False,
       ring_closed = False,
       requests = [] \<rparr>"

text \<open>The hovered ring painted again: the radius stored with the editor's node is
  \<open>16 * 1.6\<close>.\<close>

abbreviation pair_hovered_painted :: ring where
  "pair_hovered_painted \<equiv>
     pair_hovered \<lparr> node_positions :=
       [((400, 140), 128 / 5, editor_a), ((400, 660), 16, terminal_b)] \<rparr>"

subsection \<open>A snapshot with an app name that is one space\<close>



section \<open>The normalizer\<close>

lemma normalize_fixed:
  "normalize_app_name ''Brave'' = ''Brave''"
  "normalize_app_name ''Firefox'' = ''Firefox''"
  "normalize_app_name ''Chrome'' = ''Chrome''"
  "normalize_app_name ''Code'' = ''Code''"
  "normalize_app_name ''Terminal'' = ''Terminal''"
  by code_simp+

lemma normalize_range:
  "normalize_app_name x \<in> {''Brave'', ''Firefox'', ''Chrome'', ''Code'', ''Terminal''}
   \<or> normalize_app_name x = x"
  unfolding normalize_app_name_def browser_consolidation_def Let_def
  by (simp split: option.splits)

text \<open>
  Claim C8. The normalizer is idempotent: normalizing a normalized name changes
  nothing. Every result is one of the five canonical names, each of which is mapped to
  itself, or the argument itself. The normalizer is a function of its argument alone
  (it reads no field of the object), so equal inputs give equal outputs.
\<close>

theorem normalize_app_name_idempotent:
  "normalize_app_name (normalize_app_name x) = normalize_app_name x"
  using normalize_range [of x] normalize_fixed by auto

section \<open>The progress setter\<close>

lemma clamp_finite:
  "\<exists>r. py_max (Finite 0) (py_min (Finite 1) v) = Finite r \<and> 0 \<le> r \<and> r \<le> 1"
  by (cases v) (auto simp: py_min_def py_max_def)

text \<open>
  Claim C9. Whatever float is assigned, finite or not, the stored progress is a finite
  number between 0 and 1: it is \<open>max 0 (min 1 x)\<close> for a finite \<open>x\<close>, 1 for plus
  infinity, 0 for minus infinity, and 1 for NaN (both builtins keep their first
  argument when the comparison with NaN is false).
\<close>

theorem anim_progress_setter_clamps:
  "\<exists>r. anim_progress (anim_progress_setter v s) = Finite r \<and> 0 \<le> r \<and> r \<le> 1
       \<and> r = (case v of Finite x \<Rightarrow> max 0 (min 1 x) | PosInf \<Rightarrow> 1 | NegInf \<Rightarrow> 0 | NaN \<Rightarrow> 1)"
  by (cases v) (auto simp: anim_progress_setter_def py_min_def py_max_def)

section \<open>Grouping\<close>

lemma groups_get_append:
  "groups_get (groups_append g k w) k' =
     (if k' = k then groups_get g k @ [w] else groups_get g k')"
  by (induction g k w rule: groups_append.induct) (auto simp: groups_get_def)

lemma keys_groups_append:
  "map fst (groups_append g k w) =
     (if k \<in> set (map fst g) then map fst g else map fst g @ [k])"
  by (induction g k w rule: groups_append.induct) auto

lemma key_set_groups_append:
  "fst ` set (groups_append g k w) = insert k (fst ` set g)"
  by (induction g k w rule: groups_append.induct) auto

lemma mset_groups_append:
  "mset (concat (map snd (groups_append g k w))) = mset (concat (map snd g)) + {#w#}"
  by (induction g k w rule: groups_append.induct) auto

lemma nonempty_groups_append:
  "\<forall>p \<in> set g. snd p \<noteq> [] \<Longrightarrow> \<forall>p \<in> set (groups_append g k w). snd p \<noteq> []"
  by (induction g k w rule: groups_append.induct) auto

text \<open>The loop invariant: the bucket of a key is what it was at the start, followed by
  the windows of that key in the order met.\<close>

lemma groups_get_loop:
  "groups_get (group_loop g ws) k =
     groups_get g k @ filter (\<lambda>w. normalize_app_name (app w) = k) ws"
  by (induction ws arbitrary: g) (auto simp: groups_get_append)

lemma distinct_keys_loop:
  "distinct (map fst g) \<Longrightarrow> distinct (map fst (group_loop g ws))"
  by (induction ws arbitrary: g) (auto simp: keys_groups_append)

lemma keys_loop:
  "fst ` set (group_loop g ws) =
     fst ` set g \<union> (\<lambda>w. normalize_app_name (app w)) ` set ws"
  by (induction ws arbitrary: g) (simp_all add: key_set_groups_append)

lemma mset_loop:
  "mset (concat (map snd (group_loop g ws))) = mset (concat (map snd g)) + mset ws"
  by (induction ws arbitrary: g) (auto simp: mset_groups_append)

lemma nonempty_loop:
  "\<forall>p \<in> set g. snd p \<noteq> [] \<Longrightarrow> \<forall>p \<in> set (group_loop g ws). snd p \<noteq> []"
proof (induction ws arbitrary: g)
  case Nil
  then show ?case by simp
next
  case (Cons w ws)
  show ?case
    using Cons.IH [OF nonempty_groups_append [OF Cons.prems]] by simp
qed

lemma distinct_keys_group_windows: "distinct (map fst (group_windows ws))"
  unfolding group_windows_def by (rule distinct_keys_loop) simp

lemma entry_is_get:
  "distinct (map fst g) \<Longrightarrow> (k, v) \<in> set g \<Longrightarrow> groups_get g k = v"
  by (simp add: groups_get_def)

lemma group_is_filter:
  assumes "(k, v) \<in> set (group_windows ws)"
  shows "v = filter (\<lambda>w. normalize_app_name (app w) = k) ws"
proof -
  have "groups_get (group_windows ws) k = v"
    using entry_is_get [OF distinct_keys_group_windows assms] .
  moreover have "groups_get [] k = []"
    by (simp add: groups_get_def)
  ultimately show ?thesis
    unfolding group_windows_def by (simp add: groups_get_loop)
qed

lemma one_group:
  assumes "w \<in> set ws"
  shows "\<exists>!p. p \<in> set (group_windows ws) \<and> w \<in> set (snd p)"
proof -
  let ?G = "group_windows ws"
  let ?k = "normalize_app_name (app w)"
  have "?k \<in> fst ` set ?G"
    unfolding group_windows_def keys_loop using assms by auto
  then obtain v where kv: "(?k, v) \<in> set ?G"
    by auto
  have v: "v = filter (\<lambda>x. normalize_app_name (app x) = ?k) ws"
    using group_is_filter [OF kv] .
  have ex: "(?k, v) \<in> set ?G \<and> w \<in> set (snd (?k, v))"
    using kv v assms by simp
  have uniq: "p = (?k, v)" if "p \<in> set ?G \<and> w \<in> set (snd p)" for p
  proof -
    obtain k' v' where p: "p = (k', v')"
      by (cases p)
    have "v' = filter (\<lambda>x. normalize_app_name (app x) = k') ws"
      using group_is_filter that p by auto
    then have k: "k' = ?k"
      using that p by auto
    have "v' = v"
      using distinct_keys_group_windows kv that p k by (metis entry_is_get)
    with k p show ?thesis
      by simp
  qed
  show ?thesis
    using ex uniq by blast
qed

text \<open>
  Claim C7. Grouping partitions the snapshot: the keys of the groups are pairwise
  different; every group is non-empty and holds exactly the windows whose normalized app
  name is its key, in snapshot order; all groups together hold the windows of the
  snapshot with their multiplicities; and every window of the snapshot lies in exactly
  one group.
\<close>

theorem group_windows_partition:
  "distinct (map fst (group_windows ws))
   \<and> (\<forall>(k, v) \<in> set (group_windows ws).
        v \<noteq> [] \<and> v = filter (\<lambda>w. normalize_app_name (app w) = k) ws)
   \<and> mset (concat (map snd (group_windows ws))) = mset ws
   \<and> (\<forall>w \<in> set ws. \<exists>!p. p \<in> set (group_windows ws) \<and> w \<in> set (snd p))"
proof -
  have 1: "distinct (map fst (group_windows ws))"
    by (rule distinct_keys_group_windows)
  have 2: "\<forall>(k, v) \<in> set (group_windows ws). v \<noteq> []"
    using nonempty_loop [of "[]" ws] unfolding group_windows_def by auto
  have 3: "\<forall>(k, v) \<in> set (group_windows ws).
             v = filter (\<lambda>w. normalize_app_name (app w) = k) ws"
    using group_is_filter by auto
  have 4: "mset (concat (map snd (group_windows ws))) = mset ws"
    unfolding group_windows_def by (simp add: mset_loop)
  have 5: "\<forall>w \<in> set ws. \<exists>!p. p \<in> set (group_windows ws) \<and> w \<in> set (snd p)"
    using one_group by blast
  from 1 2 3 4 5 show ?thesis
    by (simp add: case_prod_unfold)
qed

lemma group_windows_desk:
  "group_windows desk = [(''Code'', [editor_a, editor_c]), (''Terminal'', [terminal_b])]"
  by code_simp

theorem group_windows_partition_witness:
  "(''Code'', [editor_a, editor_c]) \<in> set (group_windows desk)
   \<and> [editor_a, editor_c] = filter (\<lambda>w. normalize_app_name (app w) = ''Code'') desk
   \<and> mset (concat (map snd (group_windows desk))) = mset desk
   \<and> terminal_b \<in> set desk
   \<and> (\<exists>!p. p \<in> set (group_windows desk) \<and> terminal_b \<in> set (snd p))"
proof -
  have m: "(''Code'', [editor_a, editor_c]) \<in> set (group_windows desk)"
    unfolding group_windows_desk by simp
  have w: "terminal_b \<in> set desk"
    by simp
  from group_windows_partition [of desk] m w show ?thesis
    by blast
qed

section \<open>The flattened order\<close>

text \<open>The cache only grows, and a name that is cached or whose icon names can be built
  does not make \<^verbatim>\<open>get_app_icon\<close> raise.\<close>

lemma get_app_icon_mono:
  "get_app_icon cache a = Some cache1 \<Longrightarrow> set cache \<subseteq> set cache1"
  by (auto simp: get_app_icon_def split: if_splits option.splits)

lemma get_app_icon_ok:
  "a \<in> set cache \<or> icon_names a \<noteq> None \<Longrightarrow> \<exists>cache1. get_app_icon cache a = Some cache1"
  by (auto simp: get_app_icon_def)

lemma paint_apps_Cons_Returned:
  assumes "paint_apps g prog hover sel c n i f cache (a # names) = Returned (hubs, nodes, cache')"
  obtains cache1 hubs' nodes' where
    "get_app_icon cache a = Some cache1"
    "paint_apps g prog hover sel c n (Suc i) (f + int (length (groups_get g a))) cache1 names
       = Returned (hubs', nodes', cache')"
    "hubs = hub_point prog c (hub_angle i n) # hubs'"
    "nodes = paint_wins prog hover sel (hub_angle i n) (hub_point prog c (hub_angle i n))
               (length (groups_get g a)) 0 f (groups_get g a) @ nodes'"
proof (cases "get_app_icon cache a")
  case None
  with assms show ?thesis by (simp add: Let_def)
next
  case (Some cache1)
  show ?thesis
  proof (cases "paint_apps g prog hover sel c n (Suc i) (f + int (length (groups_get g a))) cache1 names")
    case (Returned x)
    obtain hubs' nodes' c2 where x: "x = (hubs', nodes', c2)" by (cases x) auto
    from assms Some Returned x that show ?thesis by (simp add: Let_def)
  next
    case (Propagated x)
    with assms Some show ?thesis by (simp add: Let_def)
  next
    case (Blocked x)
    with assms Some show ?thesis by (simp add: Let_def)
  qed
qed

text \<open>The loop ends normally when no key makes \<^verbatim>\<open>get_app_icon\<close> raise.\<close>

lemma paint_apps_returns:
  "\<forall>a \<in> set names. a \<in> set cache \<or> icon_names a \<noteq> None \<Longrightarrow>
   \<exists>hubs nodes cache'. paint_apps g prog hover sel c n i f cache names = Returned (hubs, nodes, cache')"
proof (induction names arbitrary: i f cache)
  case Nil
  then show ?case by simp
next
  case (Cons a names)
  from Cons.prems obtain cache1 where c1: "get_app_icon cache a = Some cache1"
    using get_app_icon_ok [of a cache] by auto
  have "\<forall>b \<in> set names. b \<in> set cache1 \<or> icon_names b \<noteq> None"
    using Cons.prems get_app_icon_mono [OF c1] by auto
  from Cons.IH [OF this] obtain hubs nodes cache' where
    "paint_apps g prog hover sel c n (Suc i) (f + int (length (groups_get g a))) cache1 names
       = Returned (hubs, nodes, cache')" by blast
  with c1 show ?case by (simp add: Let_def)
qed

lemma flat_paint_wins:
  "map (\<lambda>p. snd (snd p)) (paint_wins prog hover sel angle hub n j flat_idx wins) = wins"
  by (induction wins arbitrary: j flat_idx) (simp_all add: Let_def)

lemma flat_paint_apps:
  "paint_apps g prog hover sel c n i f cache names = Returned (hubs, nodes, cache') \<Longrightarrow>
   map (\<lambda>(c, r, win). win) nodes = concat (map (groups_get g) names)"
proof (induction names arbitrary: i f cache hubs nodes)
  case Nil
  then show ?case by simp
next
  case (Cons a names)
  from Cons.prems obtain cache1 hubs' nodes' where
    r: "paint_apps g prog hover sel c n (Suc i) (f + int (length (groups_get g a))) cache1 names
       = Returned (hubs', nodes', cache')"
    and n: "nodes = paint_wins prog hover sel (hub_angle i n) (hub_point prog c (hub_angle i n))
               (length (groups_get g a)) 0 f (groups_get g a) @ nodes'"
    by (rule paint_apps_Cons_Returned)
  from Cons.IH [OF r] n show ?case
    by (simp add: case_prod_unfold flat_paint_wins)
qed

lemma layout_returns:
  "\<forall>a \<in> set (sorted_keys g). a \<in> set cache \<or> icon_names a \<noteq> None \<Longrightarrow>
   \<exists>hubs nodes cache'. layout g prog hover sel cache = Returned (hubs, nodes, cache')"
  using paint_apps_returns [of "sorted_keys g" cache g prog hover sel]
  by (simp add: layout_def Let_def)

lemma flat_layout:
  "layout g prog hover sel cache = Returned (hubs, nodes, cache') \<Longrightarrow>
   map (\<lambda>(c, r, win). win) nodes = concat (map (groups_get g) (sorted_keys g))"
  using flat_paint_apps [of g prog hover sel _ _ 0 0 cache "sorted_keys g" hubs nodes cache']
  by (auto simp: layout_def Let_def split: if_splits)

lemma paintEvent_Returned:
  assumes "anim_progress s = Finite prog" and "paintEvent s = Some (Returned s')"
  obtains hubs nodes cache' where
    "layout (groups s) prog (hover_win_id s) (selected_index s) (icon_cache s)
       = Returned (hubs, nodes, cache')"
    "s' = s\<lparr>node_positions := nodes, flat_windows := map (\<lambda>(c, r, win). win) nodes,
            icon_cache := cache'\<rparr>"
proof (cases "layout (groups s) prog (hover_win_id s) (selected_index s) (icon_cache s)")
  case (Returned x)
  obtain hubs nodes cache' where "x = (hubs, nodes, cache')" by (cases x) auto
  with assms Returned that show ?thesis by (simp add: paintEvent_def)
next
  case (Propagated x)
  with assms show ?thesis by (simp add: paintEvent_def)
next
  case (Blocked x)
  with assms show ?thesis by (simp add: paintEvent_def)
qed

text \<open>After a paint that returns, the flattened list is the concatenation of the
  groups, taken in the sorted order of their keys.\<close>

lemma flat_windows_paintEvent:
  assumes "anim_progress s = Finite prog"
    and "\<forall>a \<in> set (sorted_keys (groups s)). a \<in> set (icon_cache s) \<or> icon_names a \<noteq> None"
  shows "map_option (map_result flat_windows) (paintEvent s)
     = Some (Returned (concat (map (groups_get (groups s)) (sorted_keys (groups s)))))"
proof -
  from layout_returns [OF assms(2)] obtain hubs nodes cache' where
    l: "layout (groups s) prog (hover_win_id s) (selected_index s) (icon_cache s)
         = Returned (hubs, nodes, cache')" by blast
  from flat_layout [OF l] l assms(1) show ?thesis
    by (simp add: paintEvent_def)
qed

lemma group_windows_scenario:
  "group_windows scenario
     = [(''Firefox'', [scenario_w1, scenario_w3]), (''Brave'', [scenario_w2])]"
  by code_simp

lemma sorted_keys_scenario:
  "sorted_keys [(''Firefox'', [scenario_w1, scenario_w3]), (''Brave'', [scenario_w2])]
     = [''Brave'', ''Firefox'']"
  by code_simp

lemma icons_scenario: "icon_names ''Brave'' \<noteq> None" "icon_names ''Firefox'' \<noteq> None"
  by code_simp+

lemma flat_scenario:
  "concat (map (groups_get (group_windows scenario)) (sorted_keys (group_windows scenario)))
     = [scenario_w2, scenario_w1, scenario_w3]"
  unfolding group_windows_scenario sorted_keys_scenario by (simp add: groups_get_def)

lemma icons_ok_scenario:
  "\<forall>a \<in> set (sorted_keys (group_windows scenario)). a \<in> set cache \<or> icon_names a \<noteq> None"
  unfolding group_windows_scenario sorted_keys_scenario using icons_scenario by simp

text \<open>
  Claim C1, as stated, fails: on the scenario's snapshot the groups are the stated ones,
  but the first paint returns with the flattened list 2, 1, 3, which is not the list
  1, 3, 2.
\<close>

theorem scenario_order_counterexample:
  "group_windows scenario
     = [(''Firefox'', [scenario_w1, scenario_w3]), (''Brave'', [scenario_w2])]
   \<and> map_option (map_result flat_windows) (paintEvent (init_ring scenario))
       = Some (Returned [scenario_w2, scenario_w1, scenario_w3])
   \<and> [scenario_w2, scenario_w1, scenario_w3] \<noteq> [scenario_w1, scenario_w3, scenario_w2]"
proof -
  have 0: "anim_progress (init_ring scenario) = Finite 0"
    by (simp add: init_ring_def)
  have g0: "groups (init_ring scenario) = group_windows scenario"
    by (simp add: init_ring_def)
  have "map_option (map_result flat_windows) (paintEvent (init_ring scenario))
          = Some (Returned [scenario_w2, scenario_w1, scenario_w3])"
    using flat_windows_paintEvent [OF 0] icons_ok_scenario unfolding g0 flat_scenario by blast
  then show ?thesis
    by (simp add: group_windows_scenario)
qed

text \<open>
  Claim C1, amended. On the scenario's snapshot the groups are Firefox with the windows
  1 and 3 and Brave with the window 2; the sorted keys are Brave, Firefox; and a paint
  returns with the flattened list 2, 1, 3, at the initial progress and after any
  assignment to the progress.
\<close>

theorem scenario_groups_and_order:
  "group_windows scenario
     = [(''Firefox'', [scenario_w1, scenario_w3]), (''Brave'', [scenario_w2])]
   \<and> sorted_keys (group_windows scenario) = [''Brave'', ''Firefox'']
   \<and> map_option (map_result flat_windows) (paintEvent (init_ring scenario))
       = Some (Returned [scenario_w2, scenario_w1, scenario_w3])
   \<and> map_option (map_result flat_windows)
         (paintEvent (anim_progress_setter v (init_ring scenario)))
       = Some (Returned [scenario_w2, scenario_w1, scenario_w3])"
proof -
  have 0: "anim_progress (init_ring scenario) = Finite 0"
    by (simp add: init_ring_def)
  obtain r where r: "anim_progress (anim_progress_setter v (init_ring scenario)) = Finite r"
    using clamp_finite [of v] by (auto simp: anim_progress_setter_def)
  have g: "groups (anim_progress_setter v (init_ring scenario)) = group_windows scenario"
    by (simp add: anim_progress_setter_def init_ring_def)
  have g0: "groups (init_ring scenario) = group_windows scenario"
    by (simp add: init_ring_def)
  have a: "map_option (map_result flat_windows) (paintEvent (init_ring scenario))
       = Some (Returned [scenario_w2, scenario_w1, scenario_w3])"
    using flat_windows_paintEvent [OF 0] icons_ok_scenario unfolding g0 flat_scenario by blast
  have b: "map_option (map_result flat_windows)
         (paintEvent (anim_progress_setter v (init_ring scenario)))
       = Some (Returned [scenario_w2, scenario_w1, scenario_w3])"
    using flat_windows_paintEvent [OF r] icons_ok_scenario unfolding g flat_scenario by blast
  from a b show ?thesis
    by (simp add: group_windows_scenario sorted_keys_scenario)
qed

section \<open>Concrete paints\<close>

lemmas config = RING_SIZE_def HUB_RADIUS_def SPOKE_LENGTH_def NODE_RADIUS_def

lemma icon_cache_fresh:
  "get_app_icon [] ''Code'' = Some [''Code'']"
  "get_app_icon [''Code''] ''Terminal'' = Some [''Code'', ''Terminal'']"
  "get_app_icon [] ''Terminal'' = Some [''Terminal'']"
  by code_simp+

lemma icon_cache_hit:
  "get_app_icon [''Code'', ''Terminal''] ''Code'' = Some [''Code'', ''Terminal'']"
  "get_app_icon [''Code'', ''Terminal''] ''Terminal'' = Some [''Code'', ''Terminal'']"
  by (simp_all add: get_app_icon_def)

lemmas paint_simps =
  paintEvent_def layout_def Let_def groups_get_def hub_angle_def hub_point_def spoke_off_def
  config icon_cache_fresh icon_cache_hit

lemma group_windows_pair:
  "group_windows [editor_a, terminal_b]
     = [(''Code'', [editor_a]), (''Terminal'', [terminal_b])]"
  by code_simp

lemma sorted_keys_pair:
  "sorted_keys [(''Code'', [editor_a]), (''Terminal'', [terminal_b])] = [''Code'', ''Terminal'']"
  by code_simp

lemma group_windows_lone: "group_windows [terminal_b] = [(''Terminal'', [terminal_b])]"
  by code_simp

lemma sorted_keys_lone: "sorted_keys [(''Terminal'', [terminal_b])] = [''Terminal'']"
  by code_simp

lemma sorted_keys_desk:
  "sorted_keys [(''Code'', [editor_a, editor_c]), (''Terminal'', [terminal_b])]
     = [''Code'', ''Terminal'']"
  by code_simp

lemma paint_pair:
  "paintEvent (anim_progress_setter (Finite 1) (init_ring [editor_a, terminal_b]))
     = Some (Returned pair_ring)"
  by (simp add: anim_progress_setter_def py_min_def py_max_def init_ring_def
        group_windows_pair sorted_keys_pair paint_simps)

lemma paint_lone: "paintEvent (init_ring [terminal_b]) = Some (Returned lone_ring)"
  by (simp add: init_ring_def group_windows_lone sorted_keys_lone paint_simps)

lemma paint_desk: "paintEvent (init_ring desk) = Some (Returned desk_ring)"
  by (simp add: init_ring_def group_windows_desk sorted_keys_desk paint_simps)

lemma move_pair: "mouseMoveEvent (400, 140) pair_ring = pair_hovered"
  by (simp add: mouseMoveEvent_def truthy_def PEEK_ENABLED_def)

section \<open>Keyboard navigation\<close>

lemma key_forward:
  "k \<in> {Key_Tab, Key_Right, Key_Down} \<Longrightarrow> keyPressEvent k p s = navigate 1 s"
  by (auto simp: keyPressEvent_def KEYBOARD_NAV_def)

lemma key_backward:
  "k \<in> {Key_Backtab, Key_Left, Key_Up} \<Longrightarrow> keyPressEvent k p s = navigate (- 1) s"
  by (auto simp: keyPressEvent_def KEYBOARD_NAV_def)

lemma navigate_forward_last:
  assumes "flat_windows s \<noteq> []"
    and "selected_index s = int (length (flat_windows s)) - 1"
  shows "navigate 1 s
     = Returned (s\<lparr>selected_index := 0, hover_win_id := Some (win_id (flat_windows s ! 0))\<rparr>)"
  using assms by (simp add: navigate_def py_index_def)

lemma navigate_backward_first:
  assumes "flat_windows s \<noteq> []" and "selected_index s = 0"
  shows "navigate (- 1) s
     = Returned (s\<lparr>selected_index := int (length (flat_windows s)) - 1,
                   hover_win_id :=
                     Some (win_id (flat_windows s ! (length (flat_windows s) - 1)))\<rparr>)"
proof -
  have n: "0 < int (length (flat_windows s))"
    using assms by simp
  have m: "(- 1) mod int (length (flat_windows s)) = int (length (flat_windows s)) - 1"
    using zmod_minus1 [OF n] .
  have k: "nat (int (length (flat_windows s)) - 1) = length (flat_windows s) - 1"
    by simp
  show ?thesis
    using assms n by (simp add: navigate_def py_index_def m k)
qed

text \<open>
  Claim C6. On a non-empty flattened list of \<open>N\<close> entries, a forward key (Tab, Right,
  Down) pressed at index \<open>N - 1\<close> selects index 0, and a backward key (Backtab, Left,
  Up) pressed at index 0 selects index \<open>N - 1\<close>; the handler returns, and the hovered id
  is the id of the entry now selected.
\<close>

theorem keyboard_navigation_wraps:
  assumes "flat_windows s \<noteq> []"
  shows "(selected_index s = int (length (flat_windows s)) - 1
            \<and> k \<in> {Key_Tab, Key_Right, Key_Down}
          \<longrightarrow> keyPressEvent k p s
                = Returned (s\<lparr>selected_index := 0,
                              hover_win_id := Some (win_id (flat_windows s ! 0))\<rparr>))
       \<and> (selected_index s = 0 \<and> k \<in> {Key_Backtab, Key_Left, Key_Up}
          \<longrightarrow> keyPressEvent k p s
                = Returned (s\<lparr>selected_index := int (length (flat_windows s)) - 1,
                              hover_win_id :=
                                Some (win_id (flat_windows s ! (length (flat_windows s) - 1)))\<rparr>))"
  using assms navigate_forward_last [of s] navigate_backward_first [of s]
    key_forward [of k p s] key_backward [of k p s]
  by presburger

theorem keyboard_navigation_wraps_witness:
  "flat_windows pair_hovered \<noteq> []
   \<and> selected_index pair_hovered = 0
   \<and> keyPressEvent Key_Left Exits pair_hovered
       = Returned (pair_hovered\<lparr>selected_index := 1, hover_win_id := Some ''0x02''\<rparr>)
   \<and> selected_index (pair_hovered\<lparr>selected_index := 1, hover_win_id := Some ''0x02''\<rparr>)
       = int (length (flat_windows
               (pair_hovered\<lparr>selected_index := 1, hover_win_id := Some ''0x02''\<rparr>))) - 1
   \<and> keyPressEvent Key_Down Exits
         (pair_hovered\<lparr>selected_index := 1, hover_win_id := Some ''0x02''\<rparr>)
       = Returned (pair_hovered\<lparr>selected_index := 0, hover_win_id := Some ''0x01''\<rparr>)"
  using keyboard_navigation_wraps [of pair_hovered Key_Left Exits]
    keyboard_navigation_wraps
      [of "pair_hovered\<lparr>selected_index := 1, hover_win_id := Some ''0x02''\<rparr>" Key_Down Exits]
  by simp

lemma navigate_forward_sentinel:
  assumes "flat_windows s \<noteq> []" and "selected_index s = - 1"
  shows "navigate 1 s
     = Returned (s\<lparr>selected_index := 0, hover_win_id := Some (win_id (flat_windows s ! 0))\<rparr>)"
  using assms by (simp add: navigate_def py_index_def)

lemma minus2_mod: "2 \<le> n \<Longrightarrow> (- 2) mod int n = int n - 2"
proof -
  assume a: "2 \<le> n"
  have "(- 2) mod int n = (- 2 + int n) mod int n"
    by simp
  also have "\<dots> = - 2 + int n"
    using a by (intro mod_pos_pos_trivial) auto
  finally show ?thesis
    by simp
qed

lemma navigate_backward_sentinel:
  assumes "flat_windows s \<noteq> []" and "selected_index s = - 1"
  shows "navigate (- 1) s
     = Returned (s\<lparr>selected_index :=
                     (if length (flat_windows s) = 1 then 0
                      else int (length (flat_windows s)) - 2),
                   hover_win_id :=
                     Some (win_id (flat_windows s !
                       (if length (flat_windows s) = 1 then 0
                        else length (flat_windows s) - 2)))\<rparr>)"
proof (cases "length (flat_windows s) = 1")
  case True
  then show ?thesis
    using assms by (simp add: navigate_def py_index_def)
next
  case False
  moreover have "length (flat_windows s) \<noteq> 0"
    using assms(1) by simp
  ultimately have n: "2 \<le> length (flat_windows s)"
    by arith
  have k: "nat (int (length (flat_windows s)) - 2) = length (flat_windows s) - 2"
    by simp
  show ?thesis
    using assms n False by (simp add: navigate_def py_index_def minus2_mod k)
qed

text \<open>
  Claim C10, as stated, fails for a single entry: on the ring of one window, painted
  from its initial state, a backward key pressed at the sentinel selects index 0, which
  is \<open>N - 1\<close> and not \<open>N - 2\<close>.
\<close>

theorem backward_from_sentinel_counterexample:
  "paintEvent (init_ring [terminal_b]) = Some (Returned lone_ring)
   \<and> selected_index lone_ring = - 1
   \<and> length (flat_windows lone_ring) = 1
   \<and> keyPressEvent Key_Backtab Exits lone_ring
       = Returned (lone_ring\<lparr>selected_index := 0, hover_win_id := Some ''0x02''\<rparr>)
   \<and> selected_index (lone_ring\<lparr>selected_index := 0, hover_win_id := Some ''0x02''\<rparr>)
       \<noteq> int (length (flat_windows lone_ring)) - 2"
  using paint_lone
  by (simp add: keyPressEvent_def navigate_def py_index_def KEYBOARD_NAV_def)

text \<open>
  Claim C10, amended. At the sentinel index \<open>- 1\<close>, on a flattened list of \<open>N \<ge> 1\<close>
  entries, a forward key selects index 0 and a backward key selects \<open>(- 2) mod N\<close>:
  index \<open>N - 2\<close> when \<open>N \<ge> 2\<close>, and index 0 when \<open>N = 1\<close>. The hovered id is the id of
  the entry selected.
\<close>

theorem navigation_from_sentinel:
  assumes "flat_windows s \<noteq> []" and "selected_index s = - 1"
  shows "(k \<in> {Key_Tab, Key_Right, Key_Down}
          \<longrightarrow> keyPressEvent k p s
                = Returned (s\<lparr>selected_index := 0,
                              hover_win_id := Some (win_id (flat_windows s ! 0))\<rparr>))
       \<and> (k \<in> {Key_Backtab, Key_Left, Key_Up}
          \<longrightarrow> keyPressEvent k p s
                = Returned (s\<lparr>selected_index :=
                                (if length (flat_windows s) = 1 then 0
                                 else int (length (flat_windows s)) - 2),
                              hover_win_id :=
                                Some (win_id (flat_windows s !
                                  (if length (flat_windows s) = 1 then 0
                                   else length (flat_windows s) - 2)))\<rparr>))"
  using navigate_forward_sentinel [OF assms] navigate_backward_sentinel [OF assms]
    key_forward [of k p s] key_backward [of k p s]
  by presburger

theorem navigation_from_sentinel_witness:
  "paintEvent (init_ring desk) = Some (Returned desk_ring)
   \<and> flat_windows desk_ring \<noteq> []
   \<and> selected_index desk_ring = - 1
   \<and> keyPressEvent Key_Tab Exits desk_ring
       = Returned (desk_ring\<lparr>selected_index := 0, hover_win_id := Some ''0x01''\<rparr>)
   \<and> keyPressEvent Key_Backtab Exits desk_ring
       = Returned (desk_ring\<lparr>selected_index := 1, hover_win_id := Some ''0x03''\<rparr>)"
  using navigation_from_sentinel [of desk_ring Key_Tab Exits]
    navigation_from_sentinel [of desk_ring Key_Backtab Exits] paint_desk
  by simp

section \<open>The peek timer\<close>

text \<open>The pointer path: when a move changes the hover, the timer is stopped, and it is
  restarted only for the id now hovered.\<close>

lemma mouse_move_rearms:
  assumes "hover_win_id (mouseMoveEvent pos s) \<noteq> hover_win_id s"
    and "peek_timer_active (mouseMoveEvent pos s)"
  shows "pending_peek_id (mouseMoveEvent pos s) = hover_win_id (mouseMoveEvent pos s)"
  using assms
  by (auto simp: mouseMoveEvent_def Let_def case_prod_unfold split: if_splits)

text \<open>
  Claim C3, on the keyboard path. The ring on the editor and the terminal is painted at
  progress 1; the pointer moves onto the editor's node, which arms a peek for the
  editor; the Tab key then moves the hover to the terminal, and leaves the timer
  running with the editor's id pending; when the timer expires, a peek request is made
  for the editor, which is no longer hovered.
\<close>

theorem stale_peek_after_keyboard_move:
  "paintEvent (anim_progress_setter (Finite 1) (init_ring [editor_a, terminal_b]))
     = Some (Returned pair_ring)
   \<and> mouseMoveEvent (400, 140) pair_ring = pair_hovered
   \<and> keyPressEvent Key_Tab Exits pair_hovered
       = Returned (pair_hovered\<lparr>selected_index := 1, hover_win_id := Some ''0x02''\<rparr>)
   \<and> peek_timer_timeout Exits
         (pair_hovered\<lparr>selected_index := 1, hover_win_id := Some ''0x02''\<rparr>)
       = Returned (pair_hovered\<lparr>selected_index := 1, hover_win_id := Some ''0x02'',
                     peek_timer_active := False, requests := [Peek ''0x01'']\<rparr>)"
proof -
  have 3: "keyPressEvent Key_Tab Exits pair_hovered
       = Returned (pair_hovered\<lparr>selected_index := 1, hover_win_id := Some ''0x02''\<rparr>)"
    by (simp add: keyPressEvent_def navigate_def py_index_def KEYBOARD_NAV_def)
  have 4: "peek_timer_timeout Exits
         (pair_hovered\<lparr>selected_index := 1, hover_win_id := Some ''0x02''\<rparr>)
       = Returned (pair_hovered\<lparr>selected_index := 1, hover_win_id := Some ''0x02'',
                     peek_timer_active := False, requests := [Peek ''0x01'']\<rparr>)"
    by (simp add: peek_timer_timeout_def do_peek_def)
  from paint_pair move_pair 3 4 show ?thesis
    by simp
qed

section \<open>Failures of the external call\<close>

text \<open>The peek path: whatever the launched process does, \<^verbatim>\<open>_do_peek\<close> returns.\<close>

lemma do_peek_returns: "\<exists>s'. do_peek p s = Returned s'"
  by (cases p) (auto simp: do_peek_def split: option.splits)

text \<open>
  Claim C5, on the activation paths. With the editor hovered, a left press or a confirm
  key whose call raises lets the exception escape the handler before
  \<^verbatim>\<open>self.close()\<close>; one whose process hangs never returns. The ring stays open, and
  a second press that raises leaves it open again.
\<close>

theorem activation_failure_escapes:
  "mouseMoveEvent (400, 140) pair_ring = pair_hovered
   \<and> mousePressEvent LeftButton Raises pair_hovered
       = Propagated (pair_hovered\<lparr>requests := [Activate ''0x01'']\<rparr>)
   \<and> keyPressEvent Key_Return Raises pair_hovered
       = Propagated (pair_hovered\<lparr>requests := [Activate ''0x01'']\<rparr>)
   \<and> mousePressEvent LeftButton Hangs pair_hovered
       = Blocked (pair_hovered\<lparr>requests := [Activate ''0x01'']\<rparr>)
   \<and> keyPressEvent Key_Space Hangs pair_hovered
       = Blocked (pair_hovered\<lparr>requests := [Activate ''0x01'']\<rparr>)
   \<and> ring_closed (pair_hovered\<lparr>requests := [Activate ''0x01'']\<rparr>) = False
   \<and> mousePressEvent LeftButton Raises (pair_hovered\<lparr>requests := [Activate ''0x01'']\<rparr>)
       = Propagated (pair_hovered\<lparr>requests := [Activate ''0x01'', Activate ''0x01'']\<rparr>)"
proof -
  have 2: "mousePressEvent LeftButton Raises pair_hovered
       = Propagated (pair_hovered\<lparr>requests := [Activate ''0x01'']\<rparr>)"
    by (simp add: mousePressEvent_def activate_then_close_def)
  have 3: "keyPressEvent Key_Return Raises pair_hovered
       = Propagated (pair_hovered\<lparr>requests := [Activate ''0x01'']\<rparr>)"
    by (simp add: keyPressEvent_def activate_then_close_def)
  have 4: "mousePressEvent LeftButton Hangs pair_hovered
       = Blocked (pair_hovered\<lparr>requests := [Activate ''0x01'']\<rparr>)"
    by (simp add: mousePressEvent_def activate_then_close_def)
  have 5: "keyPressEvent Key_Space Hangs pair_hovered
       = Blocked (pair_hovered\<lparr>requests := [Activate ''0x01'']\<rparr>)"
    by (simp add: keyPressEvent_def activate_then_close_def)
  have 7: "mousePressEvent LeftButton Raises (pair_hovered\<lparr>requests := [Activate ''0x01'']\<rparr>)
       = Propagated (pair_hovered\<lparr>requests := [Activate ''0x01'', Activate ''0x01'']\<rparr>)"
    by (simp add: mousePressEvent_def activate_then_close_def)
  from move_pair 2 3 4 5 7 show ?thesis
    by simp
qed

section \<open>The layout\<close>

lemma length_paint_wins [simp]:
  "length (paint_wins prog hover sel angle hub n j f wins) = length wins"
  by (induction wins arbitrary: j f) (simp_all add: Let_def)

lemma paint_wins_nth:
  "k < length wins \<Longrightarrow>
   paint_wins prog hover sel angle hub n j f wins ! k
     = ((fst hub + SPOKE_LENGTH * prog * cos (angle + spoke_off (j + k) n),
         snd hub + SPOKE_LENGTH * prog * sin (angle + spoke_off (j + k) n)),
        (if hover = Some (win_id (wins ! k)) \<or> sel = f + int k
         then NODE_RADIUS * prog * 1.6 else NODE_RADIUS * prog),
        wins ! k)"
proof (induction wins arbitrary: j f k)
  case Nil
  then show ?case by simp
next
  case (Cons w wins)
  show ?case
  proof (cases k)
    case 0
    then show ?thesis by (simp add: Let_def)
  next
    case (Suc k')
    then have "k' < length wins" using Cons.prems by simp
    from Cons.IH [OF this, of "Suc j" "f + 1"] Suc show ?thesis
      by (simp add: Let_def add.assoc)
  qed
qed

lemma paint_apps_hub_nth:
  "paint_apps g prog hover sel c n i f cache names = Returned (hubs, nodes, cache') \<Longrightarrow>
   i' < length names \<Longrightarrow> hubs ! i' = hub_point prog c (hub_angle (i + i') n)"
proof (induction names arbitrary: i f cache hubs nodes i')
  case Nil
  then show ?case by simp
next
  case (Cons a names)
  from Cons.prems(1) obtain cache1 hubs' nodes' where
    r: "paint_apps g prog hover sel c n (Suc i) (f + int (length (groups_get g a))) cache1 names
       = Returned (hubs', nodes', cache')"
    and h: "hubs = hub_point prog c (hub_angle i n) # hubs'"
    by (rule paint_apps_Cons_Returned)
  show ?case
  proof (cases i')
    case 0
    with h show ?thesis by simp
  next
    case (Suc m)
    then have "m < length names" using Cons.prems(2) by simp
    from Cons.IH [OF r this] Suc h show ?thesis by simp
  qed
qed

text \<open>Window \<open>j\<close> of the app at position \<open>i'\<close> comes after all windows of the apps
  before it.\<close>

lemma paint_apps_node_nth:
  "paint_apps g prog hover sel c n i f cache names = Returned (hubs, nodes, cache') \<Longrightarrow>
   i' < length names \<Longrightarrow> j < length (groups_get g (names ! i')) \<Longrightarrow>
   nodes ! (sum_list (map (\<lambda>a. length (groups_get g a)) (take i' names)) + j)
   = paint_wins prog hover sel (hub_angle (i + i') n) (hub_point prog c (hub_angle (i + i') n))
       (length (groups_get g (names ! i'))) 0
       (f + int (sum_list (map (\<lambda>a. length (groups_get g a)) (take i' names))))
       (groups_get g (names ! i')) ! j"
proof (induction names arbitrary: i f cache hubs nodes i')
  case Nil
  then show ?case by simp
next
  case (Cons a names)
  from Cons.prems(1) obtain cache1 hubs' nodes' where
    r: "paint_apps g prog hover sel c n (Suc i) (f + int (length (groups_get g a))) cache1 names
       = Returned (hubs', nodes', cache')"
    and nd: "nodes = paint_wins prog hover sel (hub_angle i n) (hub_point prog c (hub_angle i n))
               (length (groups_get g a)) 0 f (groups_get g a) @ nodes'"
    by (rule paint_apps_Cons_Returned)
  show ?case
  proof (cases i')
    case 0
    then show ?thesis using Cons.prems nd by (simp add: nth_append)
  next
    case (Suc m)
    then have m: "m < length names" and j: "j < length (groups_get g (names ! m))"
      using Cons.prems by simp_all
    from Cons.IH [OF r m j] Suc nd show ?thesis
      by (simp add: nth_append add.assoc)
  qed
qed

lemma paint_apps_radius:
  "paint_apps g prog hover sel c n i f cache names = Returned (hubs, nodes, cache') \<Longrightarrow>
   k < length nodes \<Longrightarrow>
   fst (snd (nodes ! k))
     = (if hover = Some (win_id (snd (snd (nodes ! k)))) \<or> sel = f + int k
        then NODE_RADIUS * prog * 1.6 else NODE_RADIUS * prog)"
proof (induction names arbitrary: i f cache hubs nodes k)
  case Nil
  then show ?case by simp
next
  case (Cons a names)
  let ?wins = "groups_get g a"
  from Cons.prems(1) obtain cache1 hubs' nodes' where
    r: "paint_apps g prog hover sel c n (Suc i) (f + int (length ?wins)) cache1 names
       = Returned (hubs', nodes', cache')"
    and nd: "nodes = paint_wins prog hover sel (hub_angle i n) (hub_point prog c (hub_angle i n))
               (length ?wins) 0 f ?wins @ nodes'"
    by (rule paint_apps_Cons_Returned)
  show ?case
  proof (cases "k < length ?wins")
    case True
    then show ?thesis unfolding nd
      by (simp add: nth_append paint_wins_nth)
  next
    case False
    then have "k - length ?wins < length nodes'"
      using Cons.prems(2) nd by simp
    from Cons.IH [OF r this] False show ?thesis unfolding nd
      by (simp add: nth_append)
  qed
qed

lemma layout_Returned:
  assumes "sorted_keys g \<noteq> []"
  shows "layout g prog hover sel cache
     = paint_apps g prog hover sel (RING_SIZE / 2, RING_SIZE / 2) (length (sorted_keys g)) 0 0
         cache (sorted_keys g)"
  using assms by (simp add: layout_def Let_def)

text \<open>
  The positions when every icon loads. Let the sorted app keys be \<open>n\<close> in number, none of
  them making \<^verbatim>\<open>get_app_icon\<close> raise, and \<open>i\<close> a position among them. The loops end
  normally. Hub \<open>i\<close> is at the centre of the widget plus \<open>progress * HUB_RADIUS\<close> times the
  cosine and sine of \<open>2 * pi * i / n - pi / 2\<close>. Window \<open>j\<close> of that app, which has \<open>m\<close>
  windows, is the entry of the node list after the windows of the apps before it; its
  centre is the hub plus \<open>progress * SPOKE_LENGTH\<close> times the cosine and sine of the hub
  angle plus the offset \<open>(j - (m - 1) / 2) * (pi / 11)\<close> if \<open>m > 1\<close> and 0 otherwise,
  and its descriptor is window \<open>j\<close> of the group.
\<close>

lemma layout_positions:
  assumes "i < length (sorted_keys g)"
    and "\<forall>a \<in> set (sorted_keys g). a \<in> set cache \<or> icon_names a \<noteq> None"
  shows
    "\<exists>hubs nodes cache'.
       layout g prog hover sel cache = Returned (hubs, nodes, cache')
       \<and> (let names = sorted_keys g;
               n = length names;
               wins = groups_get g (names ! i);
               m = length wins;
               before = sum_list (map (\<lambda>a. length (groups_get g a)) (take i names));
               angle = 2 * pi * real i / real n - pi / 2;
               hub = (RING_SIZE / 2 + prog * HUB_RADIUS * cos angle,
                      RING_SIZE / 2 + prog * HUB_RADIUS * sin angle)
           in hubs ! i = hub
              \<and> (\<forall>j < m.
                   let offset = (if m > 1 then (real j - (real m - 1) / 2) * (pi / 11) else 0)
                   in fst (nodes ! (before + j))
                        = (fst hub + prog * SPOKE_LENGTH * cos (angle + offset),
                           snd hub + prog * SPOKE_LENGTH * sin (angle + offset))
                      \<and> snd (snd (nodes ! (before + j))) = wins ! j))"
proof -
  have ne: "sorted_keys g \<noteq> []" using assms(1) by auto
  from layout_returns [OF assms(2)] obtain hubs nodes cache' where
    l: "layout g prog hover sel cache = Returned (hubs, nodes, cache')" by blast
  then have p: "paint_apps g prog hover sel (RING_SIZE / 2, RING_SIZE / 2)
      (length (sorted_keys g)) 0 0 cache (sorted_keys g) = Returned (hubs, nodes, cache')"
    by (simp add: layout_Returned [OF ne])
  have hub: "hubs ! i
      = hub_point prog (RING_SIZE / 2, RING_SIZE / 2) (hub_angle i (length (sorted_keys g)))"
    using paint_apps_hub_nth [OF p assms(1)] by simp
  have node: "nodes
       ! (sum_list (map (\<lambda>a. length (groups_get g a)) (take i (sorted_keys g))) + j)
     = ((fst (hub_point prog (RING_SIZE / 2, RING_SIZE / 2) (hub_angle i (length (sorted_keys g))))
           + SPOKE_LENGTH * prog * cos (hub_angle i (length (sorted_keys g))
               + spoke_off j (length (groups_get g (sorted_keys g ! i)))),
         snd (hub_point prog (RING_SIZE / 2, RING_SIZE / 2) (hub_angle i (length (sorted_keys g))))
           + SPOKE_LENGTH * prog * sin (hub_angle i (length (sorted_keys g))
               + spoke_off j (length (groups_get g (sorted_keys g ! i))))),
        (if hover = Some (win_id (groups_get g (sorted_keys g ! i) ! j))
            \<or> sel = int (sum_list (map (\<lambda>a. length (groups_get g a)) (take i (sorted_keys g)))) + int j
         then NODE_RADIUS * prog * 1.6 else NODE_RADIUS * prog),
        groups_get g (sorted_keys g ! i) ! j)"
    if "j < length (groups_get g (sorted_keys g ! i))" for j
    using paint_apps_node_nth [OF p assms(1) that]
      paint_wins_nth [OF that, of prog hover sel _ _ _ 0]
    by simp
  have "let names = sorted_keys g;
               n = length names;
               wins = groups_get g (names ! i);
               m = length wins;
               before = sum_list (map (\<lambda>a. length (groups_get g a)) (take i names));
               angle = 2 * pi * real i / real n - pi / 2;
               hub = (RING_SIZE / 2 + prog * HUB_RADIUS * cos angle,
                      RING_SIZE / 2 + prog * HUB_RADIUS * sin angle)
           in hubs ! i = hub
              \<and> (\<forall>j < m.
                   let offset = (if m > 1 then (real j - (real m - 1) / 2) * (pi / 11) else 0)
                   in fst (nodes ! (before + j))
                        = (fst hub + prog * SPOKE_LENGTH * cos (angle + offset),
                           snd hub + prog * SPOKE_LENGTH * sin (angle + offset))
                      \<and> snd (snd (nodes ! (before + j))) = wins ! j)"
    unfolding Let_def
    by (simp add: hub node hub_point_def hub_angle_def spoke_off_def Let_def mult.commute)
  with l show ?thesis by blast
qed






section \<open>The hit test\<close>

lemma hit_dist:
  "hit pos (c, r, w) \<longleftrightarrow> sqrt ((fst pos - fst c)\<^sup>2 + (snd pos - snd c)\<^sup>2) < r + 20"
  by (simp add: power2_eq_square Let_def)

lemma hit_loop_none:
  "(\<forall>k < length nodes. \<not> hit pos (nodes ! k)) \<Longrightarrow> hit_loop pos idx nodes = (None, - 1)"
proof (induction nodes arbitrary: idx)
  case Nil
  then show ?case by simp
next
  case (Cons nd nodes)
  obtain c r w where nd: "nd = (c, r, w)" by (cases nd) auto
  have 0: "\<not> hit pos nd" using Cons.prems by auto
  have rest: "\<forall>k < length nodes. \<not> hit pos (nodes ! k)" using Cons.prems by auto
  show ?case using 0 Cons.IH [OF rest] unfolding nd by simp
qed

lemma hit_loop_first:
  "i < length nodes \<Longrightarrow> hit pos (nodes ! i) \<Longrightarrow> (\<forall>k < i. \<not> hit pos (nodes ! k)) \<Longrightarrow>
   hit_loop pos idx nodes = (Some (win_id (snd (snd (nodes ! i)))), int (idx + i))"
proof (induction nodes arbitrary: idx i)
  case Nil
  then show ?case by simp
next
  case (Cons nd nodes)
  obtain c r w where nd: "nd = (c, r, w)" by (cases nd) auto
  show ?case
  proof (cases i)
    case 0
    then show ?thesis using Cons.prems unfolding nd by simp
  next
    case (Suc m)
    have a: "m < length nodes" using Cons.prems Suc by simp
    have b: "hit pos (nodes ! m)" using Cons.prems Suc by simp
    have c: "\<forall>k < m. \<not> hit pos (nodes ! k)" using Cons.prems(3) Suc by auto
    have d: "\<not> hit pos nd" using Cons.prems(3) Suc by auto
    show ?thesis using Cons.IH [OF a b c, of "Suc idx"] d Suc unfolding nd by simp
  qed
qed

lemma layout_radius:
  "layout g prog hover sel cache = Returned (hubs, nodes, cache') \<Longrightarrow>
   k < length nodes \<Longrightarrow>
   fst (snd (nodes ! k))
     = (if hover = Some (win_id (snd (snd (nodes ! k)))) \<or> sel = int k
        then NODE_RADIUS * prog * 1.6 else NODE_RADIUS * prog)"
  using paint_apps_radius [of g prog hover sel _ _ 0 0 cache "sorted_keys g" hubs nodes cache' k]
  by (auto simp: layout_def Let_def split: if_splits)

text \<open>
  Claim C2, amended. After a paint at progress \<open>prog\<close> that returns, the radius stored
  with node \<open>k\<close> is \<open>NODE_RADIUS * prog\<close>, multiplied by 1.6 when the node's window was
  hovered or its index selected at that paint. The test on a node holds exactly when the
  Euclidean distance from the pointer to the node's centre is below that stored radius
  plus 20. The loop answers with the first node of the list that passes the test, and
  with no node when none passes; the list is in app-major order, the apps by sorted key
  and the windows in the order of their group.
\<close>

theorem hit_test_uses_stored_radius:
  assumes "anim_progress s = Finite prog" and "paintEvent s = Some (Returned s')"
  shows "(\<forall>k < length (node_positions s').
            case node_positions s' ! k of (c, r, w) \<Rightarrow>
              r = (if hover_win_id s = Some (win_id w) \<or> selected_index s = int k
                   then NODE_RADIUS * prog * 1.6 else NODE_RADIUS * prog)
              \<and> (hit pos (c, r, w)
                   \<longleftrightarrow> sqrt ((fst pos - fst c)\<^sup>2 + (snd pos - snd c)\<^sup>2) < r + 20))
       \<and> (\<forall>i < length (node_positions s').
            hit pos (node_positions s' ! i) \<and> (\<forall>k < i. \<not> hit pos (node_positions s' ! k))
            \<longrightarrow> hit_loop pos 0 (node_positions s')
                  = (Some (win_id (snd (snd (node_positions s' ! i)))), int i))
       \<and> ((\<forall>k < length (node_positions s'). \<not> hit pos (node_positions s' ! k))
            \<longrightarrow> hit_loop pos 0 (node_positions s') = (None, - 1))
       \<and> map (\<lambda>(c, r, w). w) (node_positions s')
           = concat (map (groups_get (groups s)) (sorted_keys (groups s)))"
proof -
  from assms obtain hubs nodes cache' where
    l: "layout (groups s) prog (hover_win_id s) (selected_index s) (icon_cache s)
          = Returned (hubs, nodes, cache')"
    and s': "s' = s\<lparr>node_positions := nodes, flat_windows := map (\<lambda>(c, r, win). win) nodes,
                   icon_cache := cache'\<rparr>"
    by (rule paintEvent_Returned)
  have np: "node_positions s' = nodes"
    using s' by simp
  have 4: "map (\<lambda>(c, r, w). w) (node_positions s')
           = concat (map (groups_get (groups s)) (sorted_keys (groups s)))"
    unfolding np using l by (rule flat_layout)
  have 1: "\<forall>k < length (node_positions s').
            case node_positions s' ! k of (c, r, w) \<Rightarrow>
              r = (if hover_win_id s = Some (win_id w) \<or> selected_index s = int k
                   then NODE_RADIUS * prog * 1.6 else NODE_RADIUS * prog)
              \<and> (hit pos (c, r, w)
                   \<longleftrightarrow> sqrt ((fst pos - fst c)\<^sup>2 + (snd pos - snd c)\<^sup>2) < r + 20)"
    unfolding np using layout_radius [OF l]
    by (simp add: case_prod_unfold hit_dist del: hit.simps)
  have 2: "\<forall>i < length (node_positions s').
            hit pos (node_positions s' ! i) \<and> (\<forall>k < i. \<not> hit pos (node_positions s' ! k))
            \<longrightarrow> hit_loop pos 0 (node_positions s')
                  = (Some (win_id (snd (snd (node_positions s' ! i)))), int i)"
    using hit_loop_first [of _ "node_positions s'" pos 0] by simp
  have 3: "(\<forall>k < length (node_positions s'). \<not> hit pos (node_positions s' ! k))
            \<longrightarrow> hit_loop pos 0 (node_positions s') = (None, - 1)"
    using hit_loop_none [of "node_positions s'" pos 0] by simp
  from 1 2 3 4 show ?thesis by blast
qed

lemma paint_hovered: "paintEvent pair_hovered = Some (Returned pair_hovered_painted)"
  by (simp add: sorted_keys_pair paint_simps)

lemma sqrt_1600: "sqrt 1600 = 40"
  using real_sqrt_abs2 [of 40] by simp

lemma not_sqrt_less: "0 \<le> c \<Longrightarrow> c\<^sup>2 \<le> x \<Longrightarrow> \<not> sqrt x < c"
  using real_le_rsqrt [of c x] by simp

text \<open>
  Claim C2, as stated, fails. Once the pointer has been on the editor's node and the
  ring is painted again, the pointer at distance 40 from the centre of that node is a
  hit, although the base radius plus the tolerance is 36; on the ring painted before the
  hover, the same pointer position hits nothing.
\<close>

theorem enlarged_radius_hit_counterexample:
  "mouseMoveEvent (400, 140) pair_ring = pair_hovered
   \<and> paintEvent pair_hovered = Some (Returned pair_hovered_painted)
   \<and> hit_loop (440, 140) 0 (node_positions pair_hovered_painted) = (Some ''0x01'', 0)
   \<and> sqrt ((440 - 400)\<^sup>2 + (140 - 140)\<^sup>2) = 40
   \<and> \<not> (40 < NODE_RADIUS * 1 + 20)
   \<and> hit_loop (440, 140) 0 (node_positions pair_ring) = (None, - 1)"
proof -
  have 3: "hit_loop (440, 140) 0 (node_positions pair_hovered_painted) = (Some ''0x01'', 0)"
    by (simp add: sqrt_1600)
  have 4: "sqrt ((440 - 400)\<^sup>2 + (140 - 140)\<^sup>2) = 40"
    by (simp add: sqrt_1600)
  have 5: "\<not> (40 < NODE_RADIUS * 1 + 20)"
    by (simp add: NODE_RADIUS_def)
  have "\<not> sqrt 272000 < 36"
    by (rule not_sqrt_less) simp_all
  then have 6: "hit_loop (440, 140) 0 (node_positions pair_ring) = (None, - 1)"
    by (simp add: sqrt_1600)
  from move_pair paint_hovered 3 4 5 6 show ?thesis by blast
qed

theorem hit_test_uses_stored_radius_witness:
  "anim_progress pair_hovered = Finite 1
   \<and> paintEvent pair_hovered = Some (Returned pair_hovered_painted)
   \<and> 0 < length (node_positions pair_hovered_painted)
   \<and> fst (snd (node_positions pair_hovered_painted ! 0)) = NODE_RADIUS * 1 * 1.6
   \<and> hit (440, 140) (node_positions pair_hovered_painted ! 0)
   \<and> hit_loop (440, 140) 0 (node_positions pair_hovered_painted) = (Some ''0x01'', 0)
   \<and> \<not> hit (0, 0) (node_positions pair_hovered_painted ! 0)
   \<and> \<not> hit (0, 0) (node_positions pair_hovered_painted ! 1)
   \<and> hit_loop (0, 0) 0 (node_positions pair_hovered_painted) = (None, - 1)"
proof -
  have p: "anim_progress pair_hovered = Finite 1"
    by simp
  have h: "hit (440, 140) (node_positions pair_hovered_painted ! 0)"
    by (simp add: sqrt_1600)
  have a: "\<not> sqrt 179600 < 228 / 5"
    by (rule not_sqrt_less) (simp_all add: power2_eq_square)
  have b: "\<not> sqrt 595600 < 36"
    by (rule not_sqrt_less) simp_all
  have n: "\<forall>k < length (node_positions pair_hovered_painted).
         \<not> hit (0, 0) (node_positions pair_hovered_painted ! k)"
    using a b by (simp add: less_Suc_eq all_conj_distrib numeral_2_eq_2)
  have l: "0 < length (node_positions pair_hovered_painted)"
    by simp
  note near = hit_test_uses_stored_radius [OF p paint_hovered, of "(440, 140)"]
  note far = hit_test_uses_stored_radius [OF p paint_hovered, of "(0, 0)"]
  have r: "fst (snd (node_positions pair_hovered_painted ! 0)) = NODE_RADIUS * 1 * 1.6"
    using near [THEN conjunct1, rule_format, OF l] by (simp add: NODE_RADIUS_def)
  have f: "hit_loop (440, 140) 0 (node_positions pair_hovered_painted) = (Some ''0x01'', 0)"
    using near [THEN conjunct2, THEN conjunct1, rule_format, OF l] h by simp
  have m: "hit_loop (0, 0) 0 (node_positions pair_hovered_painted) = (None, - 1)"
    using far [THEN conjunct2, THEN conjunct2, THEN conjunct1] n by (rule mp)
  have n0: "\<not> hit (0, 0) (node_positions pair_hovered_painted ! 0)"
    using a by simp
  have n1: "\<not> hit (0, 0) (node_positions pair_hovered_painted ! 1)"
    using b by simp
  from p paint_hovered l r h f n0 n1 m show ?thesis
    by blast
qed

end
